theory Spec2Isabelle
  imports Main
begin

section \<open>Conway's Game of Life: the Board of mechanics.py\<close>

text \<open>
  The board of \<^verbatim>\<open>mechanics.py\<close> is a Python object with three attributes:
  \<^verbatim>\<open>_width\<close>, \<^verbatim>\<open>_height\<close> and \<^verbatim>\<open>_state\<close>, a list of rows, each a list of
  integers (0 for a dead cell, 1 for an alive one). Python integers are unbounded, so
  they are \<^typ>\<open>int\<close> here; nothing in the class restricts a cell to 0 or 1, so a cell
  is an \<^typ>\<open>int\<close> too. Every method returns either an error (a failed \<^verbatim>\<open>assert\<close>
  or an \<^verbatim>\<open>IndexError\<close> of a list access) or its result; a method that mutates the
  board returns the new board. Assertions are enabled, as they are by default.
\<close>

subsection \<open>Python lists, ranges and exceptions\<close>

datatype py_error = AssertionError | IndexError

definition py_bind :: "py_error + 'a \<Rightarrow> ('a \<Rightarrow> py_error + 'b) \<Rightarrow> py_error + 'b" where
  "py_bind m f = (case m of Inl e \<Rightarrow> Inl e | Inr x \<Rightarrow> f x)"

text \<open>\<^verbatim>\<open>xs[i]\<close>: an index from \<open>-len(xs)\<close> to \<open>len(xs) - 1\<close>, the negative ones
  counted from the end; anything else raises \<^verbatim>\<open>IndexError\<close>.\<close>

definition py_pos :: "'a list \<Rightarrow> int \<Rightarrow> nat" where
  "py_pos xs i = nat (if i < 0 then i + int (length xs) else i)"

definition py_index :: "'a list \<Rightarrow> int \<Rightarrow> py_error + 'a" where
  "py_index xs i =
     (if - int (length xs) \<le> i \<and> i < int (length xs)
      then Inr (xs ! py_pos xs i) else Inl IndexError)"

text \<open>\<^verbatim>\<open>xs[i] = v\<close>, under the same rule.\<close>

definition py_store :: "'a list \<Rightarrow> int \<Rightarrow> 'a \<Rightarrow> py_error + 'a list" where
  "py_store xs i v =
     (if - int (length xs) \<le> i \<and> i < int (length xs)
      then Inr (xs[py_pos xs i := v]) else Inl IndexError)"

text \<open>\<^verbatim>\<open>range(n)\<close>: empty when \<open>n \<le> 0\<close>.\<close>

definition py_range :: "int \<Rightarrow> int list" where
  "py_range n = map int [0..<nat n]"

text \<open>\<^verbatim>\<open>for x in xs: body\<close> over a state; the first exception ends the loop.\<close>

fun for_loop :: "'i list \<Rightarrow> ('i \<Rightarrow> 's \<Rightarrow> py_error + 's) \<Rightarrow> 's \<Rightarrow> py_error + 's" where
  "for_loop [] body s = Inr s"
| "for_loop (x # xs) body s =
     (case body x s of Inl e \<Rightarrow> Inl e | Inr s' \<Rightarrow> for_loop xs body s')"

text \<open>\<^verbatim>\<open>g[i][j]\<close> and \<^verbatim>\<open>g[i][j] = v\<close> on a list of rows. The rows of a board are
  distinct list objects (each is built by its own \<^verbatim>\<open>[0] * width\<close>), so the store
  changes one row only.\<close>

definition get2 :: "'a list list \<Rightarrow> int \<Rightarrow> int \<Rightarrow> py_error + 'a" where
  "get2 g i j = py_bind (py_index g i) (\<lambda>row. py_index row j)"

definition set2 :: "'a list list \<Rightarrow> int \<Rightarrow> int \<Rightarrow> 'a \<Rightarrow> py_error + 'a list list" where
  "set2 g i j v =
     py_bind (py_index g i) (\<lambda>row. py_bind (py_store row j v) (\<lambda>row'. py_store g i row'))"

subsection \<open>The Board\<close>

record Board =
  width :: int
  height :: int
  state :: "int list list"

text \<open>\<^verbatim>\<open>Board.__init__\<close>: no check of its arguments; \<^verbatim>\<open>[0] * width\<close> is empty for
  \<open>width \<le> 0\<close> and \<^verbatim>\<open>range(height)\<close> is empty for \<open>height \<le> 0\<close>.\<close>

definition Board_init :: "int \<Rightarrow> int \<Rightarrow> py_error + Board" where
  "Board_init w h =
     Inr \<lparr>width = w, height = h, state = map (\<lambda>_. replicate (nat w) 0) (py_range h)\<rparr>"

text \<open>The assertion shared by \<^verbatim>\<open>get_item\<close>, \<^verbatim>\<open>set_item\<close> and
  \<^verbatim>\<open>count_alive_neighbors\<close>, with the source's \<open>\<le>\<close> on both upper bounds.\<close>

definition assert_bounds :: "Board \<Rightarrow> int \<Rightarrow> int \<Rightarrow> bool" where
  "assert_bounds b row col \<longleftrightarrow>
     0 \<le> row \<and> row \<le> height b \<and> 0 \<le> col \<and> col \<le> width b"

definition get_item :: "Board \<Rightarrow> int \<Rightarrow> int \<Rightarrow> py_error + int" where
  "get_item b row col =
     (if assert_bounds b row col then get2 (state b) row col else Inl AssertionError)"

definition set_item :: "Board \<Rightarrow> int \<Rightarrow> int \<Rightarrow> int \<Rightarrow> py_error + Board" where
  "set_item b row col v =
     (if assert_bounds b row col
      then py_bind (set2 (state b) row col v) (\<lambda>g. Inr (b\<lparr>state := g\<rparr>))
      else Inl AssertionError)"

text \<open>\<^verbatim>\<open>randomize_board\<close>. The calls of \<^verbatim>\<open>random.randint(0,1)\<close> are the successive
  elements of a sequence of draws, a parameter of the model; the loop state is the grid
  with the number of draws made so far.\<close>

definition randomize_board :: "(nat \<Rightarrow> int) \<Rightarrow> Board \<Rightarrow> py_error + Board" where
  "randomize_board draws b =
     py_bind
       (for_loop (py_range (height b))
          (\<lambda>i. for_loop (py_range (width b))
             (\<lambda>j (g, k). py_bind (set2 g i j (draws k)) (\<lambda>g'. Inr (g', Suc k))))
          (state b, 0))
       (\<lambda>(g, k). Inr (b\<lparr>state := g\<rparr>))"

definition dr :: "int list" where
  "dr = [0, 0, 1, 1, 1, -1, -1, -1]"

definition dc :: "int list" where
  "dc = [-1, 1, -1, 0, 1, -1, 0, 1]"

definition count_alive_neighbors :: "Board \<Rightarrow> int \<Rightarrow> int \<Rightarrow> py_error + int" where
  "count_alive_neighbors b row col =
     (if assert_bounds b row col
      then for_loop (py_range (int (length dr)))
             (\<lambda>i count.
                py_bind (py_index dr i) (\<lambda>dri.
                py_bind (py_index dc i) (\<lambda>dci.
                  if row + dri < height b \<and> row + dri \<ge> 0
                     \<and> col + dci < width b \<and> col + dci \<ge> 0
                  then py_bind (get2 (state b) (row + dri) (col + dci))
                         (\<lambda>v. Inr (count + v))
                  else Inr count)))
             0
      else Inl AssertionError)"

text \<open>The body of the second loop of \<^verbatim>\<open>next_state\<close>: the \<^verbatim>\<open>if\<close>/\<^verbatim>\<open>elif\<close>/\<^verbatim>\<open>else\<close>
  with Python's short-circuit \<^verbatim>\<open>and\<close>, so that the neighbours are counted only where
  the cell is 1 (first test) or 0 (second test). Every read is of \<^verbatim>\<open>self._state\<close>, the
  board \<open>b\<close>; every write is to \<^verbatim>\<open>newState\<close>, the grid \<open>ns\<close>.\<close>

definition rule_cell :: "Board \<Rightarrow> int \<Rightarrow> int \<Rightarrow> int list list \<Rightarrow> py_error + int list list" where
  "rule_cell b i j ns =
     (let elif_part =
        py_bind (get2 (state b) i j) (\<lambda>v'.
          if v' = 0
          then py_bind (count_alive_neighbors b i j) (\<lambda>n'.
                 if n' = 3 then set2 ns i j 1 else set2 ns i j 0)
          else set2 ns i j 0)
      in py_bind (get2 (state b) i j) (\<lambda>v.
           if v = 1
           then py_bind (count_alive_neighbors b i j) (\<lambda>n.
                  if n = 2 \<or> n = 3 then set2 ns i j 1 else elif_part)
           else elif_part))"

definition next_state :: "Board \<Rightarrow> py_error + Board" where
  "next_state b =
     (let newState = map (\<lambda>i. replicate (nat (width b)) 0) (py_range (height b))
      in py_bind
           (for_loop (py_range (height b))
              (\<lambda>i. for_loop (py_range (width b))
                 (\<lambda>j ns. py_bind (get2 (state b) i j) (\<lambda>v. set2 ns i j v)))
              newState)
           (\<lambda>ns1.
              py_bind
                (for_loop (py_range (height b))
                   (\<lambda>i. for_loop (py_range (width b)) (\<lambda>j ns. rule_cell b i j ns))
                   ns1)
                (\<lambda>ns2. Inr (b\<lparr>state := ns2\<rparr>))))"


subsection \<open>The Canvas of main.py, as far as it drives the board\<close>

text \<open>Only the attributes that \<^verbatim>\<open>reset_game\<close> reads are kept: the grid dimensions and
  the board. The drawable cells of \<^verbatim>\<open>gui_board\<close> are presentation.\<close>

record Canvas =
  canvas_width :: int
  canvas_height :: int
  board :: Board

definition CELL_SIZE :: int where
  "CELL_SIZE = 6"

definition Canvas_init :: "int \<Rightarrow> int \<Rightarrow> py_error + Canvas" where
  "Canvas_init w h =
     py_bind (Board_init (w div CELL_SIZE) (h div CELL_SIZE)) (\<lambda>b.
       Inr \<lparr>canvas_width = w div CELL_SIZE, canvas_height = h div CELL_SIZE, board = b\<rparr>)"

definition reset_game :: "Canvas \<Rightarrow> py_error + Canvas" where
  "reset_game c =
     for_loop (py_range (canvas_height c))
       (\<lambda>i. for_loop (py_range (canvas_width c))
          (\<lambda>j c'. py_bind (set_item (board c') i j 0) (\<lambda>b'. Inr (c'\<lparr>board := b'\<rparr>))))
       c"

subsection \<open>Properties of boards\<close>

text \<open>The shape every board built by \<^verbatim>\<open>Board.__init__\<close> has and every method keeps:
  \<^verbatim>\<open>range(height)\<close> rows of \<^verbatim>\<open>[0] * width\<close> cells each, that is \<open>nat height\<close> rows of
  \<open>nat width\<close> cells. The attributes are private, so no board of another shape exists.\<close>

definition wf_board :: "Board \<Rightarrow> bool" where
  "wf_board b \<longleftrightarrow>
     length (state b) = nat (height b)
     \<and> list_all (\<lambda>row. length row = nat (width b)) (state b)"

text \<open>The precondition the specification gives \<^verbatim>\<open>get\<close> and \<^verbatim>\<open>set\<close>.\<close>

definition in_bounds :: "Board \<Rightarrow> int \<Rightarrow> int \<Rightarrow> bool" where
  "in_bounds b row col \<longleftrightarrow> 0 \<le> row \<and> row < height b \<and> 0 \<le> col \<and> col < width b"

definition all_dead :: "Board \<Rightarrow> bool" where
  "all_dead b \<longleftrightarrow> list_all (list_all (\<lambda>v. v = 0)) (state b)"

definition cells01 :: "Board \<Rightarrow> bool" where
  "cells01 b \<longleftrightarrow> list_all (list_all (\<lambda>v. v = 0 \<or> v = 1)) (state b)"

text \<open>The invariant of the specification's data model: exactly \<open>height\<close> rows, exactly
  \<open>width\<close> cells in every row, every cell 0 (dead) or 1 (alive).\<close>

definition board_inv :: "Board \<Rightarrow> bool" where
  "board_inv b \<longleftrightarrow>
     int (length (state b)) = height b
     \<and> list_all (\<lambda>row. int (length row) = width b) (state b)
     \<and> cells01 b"

text \<open>What \<^verbatim>\<open>Canvas.__init__\<close> establishes and no method changes: the canvas holds
  the dimensions its board was built with.\<close>

definition canvas_ok :: "Canvas \<Rightarrow> bool" where
  "canvas_ok c \<longleftrightarrow>
     canvas_width c = width (board c) \<and> canvas_height c = height (board c)
     \<and> wf_board (board c)"

subsection \<open>The next generation as a function of the grid\<close>

text \<open>What the loops of \<^verbatim>\<open>count_alive_neighbors\<close> and \<^verbatim>\<open>next_state\<close> are proved to
  compute: the cell of a grid, 0 outside it; the sum over the eight offsets in the order
  of \<open>dr\<close> and \<open>dc\<close>; the rule; the grid of the rule's values.\<close>

definition grid_cell :: "int list list \<Rightarrow> int \<Rightarrow> int \<Rightarrow> int" where
  "grid_cell g r c =
     (if 0 \<le> r \<and> r < int (length g) \<and> 0 \<le> c \<and> c < int (length (g ! nat r))
      then g ! nat r ! nat c else 0)"

definition grid_count :: "int list list \<Rightarrow> int \<Rightarrow> int \<Rightarrow> int" where
  "grid_count g r c =
     grid_cell g r (c - 1) + grid_cell g r (c + 1)
     + grid_cell g (r + 1) (c - 1) + grid_cell g (r + 1) c + grid_cell g (r + 1) (c + 1)
     + grid_cell g (r - 1) (c - 1) + grid_cell g (r - 1) c + grid_cell g (r - 1) (c + 1)"

definition life_rule :: "int \<Rightarrow> int \<Rightarrow> int" where
  "life_rule v n = (if (v = 1 \<and> (n = 2 \<or> n = 3)) \<or> (v = 0 \<and> n = 3) then 1 else 0)"

definition step_grid :: "int list list \<Rightarrow> int list list" where
  "step_grid g =
     map (\<lambda>i. map (\<lambda>j. life_rule (g ! i ! j) (grid_count g (int i) (int j)))
                [0..<length (g ! i)])
         [0..<length g]"

subsection \<open>The neighbour count in the specification's words\<close>

text \<open>A position that lies within \<open>[0, height) \<times> [0, width)\<close> and holds an alive
  cell.\<close>

definition alive_cell :: "Board \<Rightarrow> int \<Rightarrow> int \<Rightarrow> bool" where
  "alive_cell b r c \<longleftrightarrow> in_bounds b r c \<and> state b ! nat r ! nat c = 1"

text \<open>The Moore neighbourhood: the offsets \<open>(dr, dc)\<close> with \<open>dr\<close> and \<open>dc\<close> in
  \<open>{-1, 0, 1}\<close>, without \<open>(0, 0)\<close>; and the number of alive cells among the
  positions \<open>(row + dr, col + dc)\<close> inside the grid.\<close>

definition moore_offsets :: "(int \<times> int) list" where
  "moore_offsets = filter (\<lambda>p. p \<noteq> (0, 0)) (List.product [-1, 0, 1] [-1, 0, 1])"

definition alive_moore_neighbors :: "Board \<Rightarrow> int \<Rightarrow> int \<Rightarrow> nat" where
  "alive_moore_neighbors b row col =
     length (filter (\<lambda>(a, d). alive_cell b (row + a) (col + d)) moore_offsets)"

subsection \<open>Boards given by the list of their alive cells\<close>

text \<open>The board of width \<open>w\<close> and height \<open>h\<close> whose cell \<open>(i, j)\<close> is 1
  when \<open>(i, j)\<close> is in the list and 0 otherwise, and the two phases of the blinker.\<close>

definition pattern_cell :: "(int \<times> int) list \<Rightarrow> int \<Rightarrow> int \<Rightarrow> int" where
  "pattern_cell alive r c = (if (r, c) \<in> set alive then 1 else 0)"

definition pattern_grid :: "(int \<times> int) list \<Rightarrow> int \<Rightarrow> int \<Rightarrow> int list list" where
  "pattern_grid alive h w = map (\<lambda>i. map (\<lambda>j. pattern_cell alive i j) (py_range w)) (py_range h)"

definition pattern_board :: "(int \<times> int) list \<Rightarrow> int \<Rightarrow> int \<Rightarrow> Board" where
  "pattern_board alive w h = \<lparr>width = w, height = h, state = pattern_grid alive h w\<rparr>"

definition blinker_horizontal :: "(int \<times> int) list" where
  "blinker_horizontal = [(2, 1), (2, 2), (2, 3)]"

definition blinker_vertical :: "(int \<times> int) list" where
  "blinker_vertical = [(1, 2), (2, 2), (3, 2)]"

subsection \<open>Example boards\<close>

text \<open>A 3 by 3 board holding a vertical blinker.\<close>

definition example_board :: Board where
  "example_board = \<lparr>width = 3, height = 3, state = [[0, 1, 0], [0, 1, 0], [0, 1, 0]]\<rparr>"

text \<open>A 2 by 2 board with no alive cell.\<close>

definition empty_board :: Board where
  "empty_board = \<lparr>width = 2, height = 2, state = [[0, 0], [0, 0]]\<rparr>"

text \<open>A canvas over the 3 by 3 board.\<close>

definition example_canvas :: Canvas where
  "example_canvas = \<lparr>canvas_width = 3, canvas_height = 3, board = example_board\<rparr>"

section \<open>Loops and list accesses\<close>

subsection \<open>Sequencing and the loop rule\<close>

lemma py_bind_Inr [simp]: "py_bind (Inr x) f = f x"
  by (simp add: py_bind_def)

lemma py_bind_Inl [simp]: "py_bind (Inl e) f = Inl e"
  by (simp add: py_bind_def)

lemma for_loop_append:
  "for_loop (xs @ ys) body s = py_bind (for_loop xs body s) (for_loop ys body)"
  by (induction xs arbitrary: s) (auto split: sum.splits)

lemma for_loop_prefix_rule:
  assumes init: "P 0 s"
    and step: "\<And>k t. k < n \<Longrightarrow> P k t \<Longrightarrow> \<exists>t'. body (int k) t = Inr t' \<and> P (Suc k) t'"
    and le: "m \<le> n"
  shows "\<exists>s'. for_loop (map int [0..<m]) body s = Inr s' \<and> P m s'"
  using le
proof (induction m)
  case 0
  then show ?case using init by simp
next
  case (Suc m)
  then obtain s1 where s1: "for_loop (map int [0..<m]) body s = Inr s1" "P m s1"
    by auto
  from Suc.prems have "m < n" by simp
  from step [OF this s1(2)] obtain s2 where "body (int m) s1 = Inr s2" "P (Suc m) s2"
    by auto
  with s1 show ?case
    by (simp add: for_loop_append)
qed

lemma for_loop_range_rule:
  assumes "P 0 s"
    and "\<And>k t. k < nat n \<Longrightarrow> P k t \<Longrightarrow> \<exists>t'. body (int k) t = Inr t' \<and> P (Suc k) t'"
  shows "\<exists>s'. for_loop (py_range n) body s = Inr s' \<and> P (nat n) s'"
  unfolding py_range_def
  using for_loop_prefix_rule [where P = P and n = "nat n" and m = "nat n", OF assms(1)] assms(2)
  by blast

subsection \<open>In-range accesses\<close>

lemma py_index_nat:
  "k < length xs \<Longrightarrow> py_index xs (int k) = Inr (xs ! k)"
  by (simp add: py_index_def py_pos_def)

lemma py_store_nat:
  "k < length xs \<Longrightarrow> py_store xs (int k) v = Inr (xs[k := v])"
  by (simp add: py_store_def py_pos_def)

lemma get2_nat:
  "i < length g \<Longrightarrow> j < length (g ! i) \<Longrightarrow> get2 g (int i) (int j) = Inr (g ! i ! j)"
  by (simp add: get2_def py_index_nat)

lemma set2_nat:
  "i < length g \<Longrightarrow> j < length (g ! i) \<Longrightarrow>
   set2 g (int i) (int j) v = Inr (g[i := (g ! i)[j := v]])"
  by (simp add: set2_def py_index_nat py_store_nat)

lemma py_range_nat: "py_range (int (nat n)) = py_range n"
  by (simp add: py_range_def)

lemma wf_board_rows: "wf_board b \<Longrightarrow> r < nat (height b) \<Longrightarrow> length (state b ! r) = nat (width b)"
  by (simp add: wf_board_def list_all_length)

subsection \<open>Nested loops that write every cell\<close>

lemma fill_row:
  assumes i: "i < length ns" and len: "length (ns ! i) = W"
    and body: "\<And>j t. j < W \<Longrightarrow> body (int j) t = set2 t (int i) (int j) (f j)"
  shows "for_loop (py_range (int W)) body ns = Inr (ns[i := map f [0..<W]])"
proof -
  let ?P = "\<lambda>k t. length t = length ns \<and> (\<forall>r. r \<noteq> i \<longrightarrow> t ! r = ns ! r)
              \<and> length (t ! i) = W \<and> (\<forall>c<k. t ! i ! c = f c)"
  have "\<exists>t. for_loop (py_range (int W)) body ns = Inr t \<and> ?P (nat (int W)) t"
  proof (rule for_loop_range_rule)
    show "?P 0 ns" using len by simp
  next
    fix k t
    assume k: "k < nat (int W)" and P: "?P k t"
    then have "body (int k) t = Inr (t[i := (t ! i)[k := f k]])"
      using i body [of k t] by (simp add: set2_nat)
    moreover have "?P (Suc k) (t[i := (t ! i)[k := f k]])"
      using P i k by (auto simp: nth_list_update less_Suc_eq)
    ultimately show "\<exists>t'. body (int k) t = Inr t' \<and> ?P (Suc k) t'"
      by blast
  qed
  then obtain t where t: "for_loop (py_range (int W)) body ns = Inr t"
    and P: "?P W t" by auto
  have "t = ns[i := map f [0..<W]]"
  proof (rule nth_equalityI)
    show "length t = length (ns[i := map f [0..<W]])" using P by simp
  next
    fix r assume "r < length t"
    then show "t ! r = ns[i := map f [0..<W]] ! r"
      using P i by (cases "r = i") (auto intro: nth_equalityI)
  qed
  with t show ?thesis by simp
qed

lemma fill_grid:
  assumes len: "length ns = H" and rows: "\<And>r. r < H \<Longrightarrow> length (ns ! r) = W"
    and body: "\<And>i j t. i < H \<Longrightarrow> j < W \<Longrightarrow>
                 body (int i) (int j) t = set2 t (int i) (int j) (f i j)"
  shows "for_loop (py_range (int H)) (\<lambda>i. for_loop (py_range (int W)) (body i)) ns
         = Inr (map (\<lambda>i. map (f i) [0..<W]) [0..<H])"
proof -
  let ?row = "\<lambda>i. for_loop (py_range (int W)) (body i)"
  let ?P = "\<lambda>k t. length t = H \<and> (\<forall>r<H. length (t ! r) = W)
              \<and> (\<forall>r<k. t ! r = map (f r) [0..<W])"
  have "\<exists>t. for_loop (py_range (int H)) ?row ns = Inr t \<and> ?P (nat (int H)) t"
  proof (rule for_loop_range_rule)
    show "?P 0 ns" using len rows by simp
  next
    fix k t
    assume k: "k < nat (int H)" and P: "?P k t"
    have "?row (int k) t = Inr (t[k := map (f k) [0..<W]])"
      using k P body by (intro fill_row) auto
    moreover have "?P (Suc k) (t[k := map (f k) [0..<W]])"
      using P k by (auto simp: nth_list_update less_Suc_eq)
    ultimately show "\<exists>t'. ?row (int k) t = Inr t' \<and> ?P (Suc k) t'" by blast
  qed
  then obtain t where t: "for_loop (py_range (int H)) ?row ns = Inr t" and P: "?P H t"
    by auto
  have "t = map (\<lambda>i. map (f i) [0..<W]) [0..<H]"
    using P by (intro nth_equalityI) auto
  with t show ?thesis by simp
qed

subsection \<open>The neighbour count\<close>

lemma get2_board:
  assumes "wf_board b" "0 \<le> r" "r < height b" "0 \<le> c" "c < width b"
  shows "get2 (state b) r c = Inr (state b ! nat r ! nat c)"
proof -
  have "nat r < length (state b)" using assms by (simp add: wf_board_def)
  moreover have "nat c < length (state b ! nat r)"
    using assms wf_board_rows [of b "nat r"] by simp
  ultimately show ?thesis
    using get2_nat [of "nat r" "state b" "nat c"] assms by simp
qed

lemma grid_cell_board:
  assumes "wf_board b"
  shows "grid_cell (state b) r c =
         (if 0 \<le> r \<and> r < height b \<and> 0 \<le> c \<and> c < width b
          then state b ! nat r ! nat c else 0)"
proof (cases "0 \<le> r \<and> r < height b")
  case True
  then have "length (state b ! nat r) = nat (width b)"
    using assms wf_board_rows [of b "nat r"] by simp
  moreover have "length (state b) = nat (height b)" using assms by (simp add: wf_board_def)
  ultimately show ?thesis using True by (auto simp: grid_cell_def)
next
  case False
  moreover have "length (state b) = nat (height b)" using assms by (simp add: wf_board_def)
  ultimately show ?thesis by (auto simp: grid_cell_def)
qed

lemma neighbor_step:
  assumes "wf_board b"
  shows "(if r < height b \<and> r \<ge> 0 \<and> c < width b \<and> c \<ge> 0
          then py_bind (get2 (state b) r c) (\<lambda>v. Inr (count + v)) else Inr count)
         = Inr (count + grid_cell (state b) r c)"
  using assms by (auto simp: grid_cell_board get2_board)

lemma upt_8: "[0..<8] = [0, 1, 2, 3, 4, 5, 6, 7]"
  by (simp add: upt_rec)

lemma count_alive_neighbors_eq:
  assumes "wf_board b" "assert_bounds b row col"
  shows "count_alive_neighbors b row col = Inr (grid_count (state b) row col)"
  using assms(2)
  by (simp add: count_alive_neighbors_def dr_def dc_def py_range_def upt_8 py_index_def py_pos_def
      neighbor_step [OF assms(1)] grid_count_def)

subsection \<open>The step\<close>

lemma assert_bounds_in_range:
  "i < nat (height b) \<Longrightarrow> j < nat (width b) \<Longrightarrow> assert_bounds b (int i) (int j)"
  by (auto simp: assert_bounds_def)

lemma rule_cell_eq:
  assumes wf: "wf_board b" and i: "i < nat (height b)" and j: "j < nat (width b)"
  shows "rule_cell b (int i) (int j) ns
         = set2 ns (int i) (int j)
             (life_rule (state b ! i ! j) (grid_count (state b) (int i) (int j)))"
proof -
  have g: "get2 (state b) (int i) (int j) = Inr (state b ! i ! j)"
    using get2_board [OF wf, of "int i" "int j"] i j by simp
  have c: "count_alive_neighbors b (int i) (int j) = Inr (grid_count (state b) (int i) (int j))"
    using count_alive_neighbors_eq [OF wf assert_bounds_in_range [OF i j]] .
  show ?thesis
    by (simp add: rule_cell_def g c life_rule_def Let_def)
qed

lemma step_grid_board:
  assumes wf: "wf_board b"
  shows "step_grid (state b)
         = map (\<lambda>i. map (\<lambda>j. life_rule (state b ! i ! j) (grid_count (state b) (int i) (int j)))
                      [0..<nat (width b)])
               [0..<nat (height b)]"
proof -
  have "length (state b) = nat (height b)" using wf by (simp add: wf_board_def)
  then show ?thesis
    unfolding step_grid_def using wf_board_rows [OF wf] by (auto intro!: map_cong)
qed

lemma next_state_eq:
  assumes wf: "wf_board b"
  shows "next_state b = Inr (b\<lparr>state := step_grid (state b)\<rparr>)"
proof -
  let ?H = "nat (height b)" and ?W = "nat (width b)"
  let ?ns0 = "map (\<lambda>i. replicate ?W (0::int)) (py_range (height b))"
  let ?ns1 = "map (\<lambda>i. map (\<lambda>j. state b ! i ! j) [0..<?W]) [0..<?H]"
  have copy: "for_loop (py_range (int ?H))
                (\<lambda>i. for_loop (py_range (int ?W))
                   (\<lambda>j ns. py_bind (get2 (state b) i j) (\<lambda>v. set2 ns i j v))) ?ns0
              = Inr ?ns1"
  proof (rule fill_grid)
    show "length ?ns0 = ?H" by (simp add: py_range_def)
    show "\<And>r. r < ?H \<Longrightarrow> length (?ns0 ! r) = ?W" by (simp add: py_range_def)
    show "\<And>i j t. i < ?H \<Longrightarrow> j < ?W \<Longrightarrow>
            py_bind (get2 (state b) (int i) (int j)) (\<lambda>v. set2 t (int i) (int j) v)
            = set2 t (int i) (int j) (state b ! i ! j)"
      using get2_board [OF wf] by simp
  qed
  have rule: "for_loop (py_range (int ?H))
                (\<lambda>i. for_loop (py_range (int ?W)) (\<lambda>j ns. rule_cell b i j ns)) ?ns1
              = Inr (step_grid (state b))"
    unfolding step_grid_board [OF wf]
    by (rule fill_grid) (simp_all add: rule_cell_eq [OF wf])
  show ?thesis
    using copy [unfolded py_range_nat] rule [unfolded py_range_nat]
    by (simp add: next_state_def)
qed

lemma wf_board_next: "wf_board b \<Longrightarrow> wf_board (b\<lparr>state := step_grid (state b)\<rparr>)"
  by (simp add: wf_board_def step_grid_def list_all_length)

lemma get_item_in_bounds:
  assumes "wf_board b" "in_bounds b row col"
  shows "get_item b row col = Inr (state b ! nat row ! nat col)"
  using assms get2_board [of b row col]
  by (simp add: get_item_def in_bounds_def assert_bounds_def)

lemma step_grid_nth:
  assumes "wf_board b" "in_bounds b row col"
  shows "step_grid (state b) ! nat row ! nat col
         = life_rule (state b ! nat row ! nat col) (grid_count (state b) row col)"
  using assms by (simp add: step_grid_board in_bounds_def)

lemma grid_cell_all_dead:
  assumes "list_all (list_all (\<lambda>v. v = 0)) g"
  shows "grid_cell g r c = 0"
  using assms by (auto simp: grid_cell_def list_all_length)

lemma step_grid_all_dead:
  assumes "list_all (list_all (\<lambda>v. v = 0)) g"
  shows "step_grid g = g"
proof -
  have cnt: "grid_count g r c = 0" for r c
    by (simp add: grid_count_def grid_cell_all_dead [OF assms])
  have cell: "g ! i ! j = 0" if "i < length g" "j < length (g ! i)" for i j
    using assms that by (simp add: list_all_length)
  show ?thesis
    unfolding step_grid_def
    by (intro nth_equalityI) (simp_all add: cnt cell life_rule_def)
qed

subsection \<open>Reading and writing one cell\<close>

lemma set_item_in_bounds:
  assumes "wf_board b" "in_bounds b r c"
  shows "set_item b r c v
         = Inr (b\<lparr>state := (state b)[nat r := (state b ! nat r)[nat c := v]]\<rparr>)"
proof -
  have "nat r < length (state b)" using assms by (simp add: wf_board_def in_bounds_def)
  moreover have "nat c < length (state b ! nat r)"
    using assms wf_board_rows [of b "nat r"] by (simp add: in_bounds_def)
  ultimately have "set2 (state b) r c v = Inr ((state b)[nat r := (state b ! nat r)[nat c := v]])"
    using set2_nat [of "nat r" "state b" "nat c" v] assms(2) by (simp add: in_bounds_def)
  then show ?thesis
    using assms(2) by (simp add: set_item_def in_bounds_def assert_bounds_def)
qed

lemma length_update2:
  "a < length g \<Longrightarrow> length (g[i := (g ! i)[j := v]] ! a) = length (g ! a)"
  by (cases "a = i") simp_all

lemma nth_update2:
  "a < length g \<Longrightarrow>
   g[i := (g ! i)[j := v]] ! a ! k = (if a = i \<and> k = j \<and> j < length (g ! i) then v else g ! a ! k)"
  by (cases "a = i"; cases "k = j") (simp_all add: list_update_beyond)

lemma wf_board_update:
  "wf_board b \<Longrightarrow> wf_board (b\<lparr>state := (state b)[i := (state b ! i)[j := v]]\<rparr>)"
  by (simp add: wf_board_def list_all_length length_update2)

lemma get_item_update_other:
  assumes "(r', c') \<noteq> (r, c)" "0 \<le> r" "0 \<le> c"
  shows "get_item (b\<lparr>state := (state b)[nat r := (state b ! nat r)[nat c := v]]\<rparr>) r' c'
         = get_item b r' c'"
  using assms
  by (auto simp: get_item_def assert_bounds_def get2_def py_index_def py_pos_def
      length_update2 nth_update2)

lemma get2_out_of_bounds:
  assumes "wf_board b" "assert_bounds b row col" "\<not> in_bounds b row col"
  shows "get2 (state b) row col = Inl IndexError"
proof (cases "row < height b")
  case True
  then have r: "nat row < length (state b)" "0 \<le> row"
    using assms by (simp_all add: wf_board_def assert_bounds_def)
  then have len: "length (state b ! nat row) = nat (width b)"
    using assms(1) wf_board_rows [of b "nat row"] by (simp add: wf_board_def)
  have "col = width b" using assms True by (auto simp: assert_bounds_def in_bounds_def)
  then show ?thesis
    using r len assms(2) by (simp add: get2_def py_index_def py_pos_def assert_bounds_def)
next
  case False
  then have "\<not> row < int (length (state b))"
    using assms by (simp add: wf_board_def assert_bounds_def)
  moreover have "0 \<le> row" using assms by (simp add: assert_bounds_def)
  ultimately show ?thesis by (simp add: get2_def py_index_def)
qed

lemma get_item_out_of_bounds:
  assumes "wf_board b" "\<not> in_bounds b row col"
  shows "get_item b row col = Inl (if assert_bounds b row col then IndexError else AssertionError)"
  using assms by (simp add: get_item_def get2_out_of_bounds)

lemma set2_out_of_bounds:
  assumes "wf_board b" "assert_bounds b row col" "\<not> in_bounds b row col"
  shows "set2 (state b) row col v = Inl IndexError"
proof (cases "row < height b")
  case True
  then have r: "nat row < length (state b)" "0 \<le> row"
    using assms by (simp_all add: wf_board_def assert_bounds_def)
  then have len: "length (state b ! nat row) = nat (width b)"
    using assms(1) wf_board_rows [of b "nat row"] by (simp add: wf_board_def)
  have "col = width b" using assms True by (auto simp: assert_bounds_def in_bounds_def)
  then show ?thesis
    using r len assms(2)
    by (simp add: set2_def py_index_def py_store_def py_pos_def assert_bounds_def)
next
  case False
  then have "\<not> row < int (length (state b))"
    using assms by (simp add: wf_board_def assert_bounds_def)
  moreover have "0 \<le> row" using assms by (simp add: assert_bounds_def)
  ultimately show ?thesis by (simp add: set2_def py_index_def)
qed

lemma set_item_out_of_bounds:
  assumes "wf_board b" "\<not> in_bounds b row col"
  shows "set_item b row col v = Inl (if assert_bounds b row col then IndexError else AssertionError)"
  using assms by (simp add: set_item_def set2_out_of_bounds)

subsection \<open>Loops that keep the shape: clearing and randomizing\<close>

lemma loop_row_cells:
  fixes grid :: "'s \<Rightarrow> int list list"
  assumes i: "i < H"
    and R: "R s" and len: "length (grid s) = H" and rows: "\<forall>r<H. length (grid s ! r) = W"
    and body: "\<And>j t. j < W \<Longrightarrow> R t \<Longrightarrow> length (grid t) = H
                 \<Longrightarrow> \<forall>r<H. length (grid t ! r) = W
                 \<Longrightarrow> \<exists>v t'. body (int j) t = Inr t'
                        \<and> grid t' = (grid t)[i := (grid t ! i)[j := v]] \<and> ok v \<and> R t'"
  shows "\<exists>s'. for_loop (py_range (int W)) body s = Inr s' \<and> R s'
           \<and> length (grid s') = H \<and> (\<forall>r<H. length (grid s' ! r) = W)
           \<and> (\<forall>r<H. r \<noteq> i \<longrightarrow> grid s' ! r = grid s ! r)
           \<and> (\<forall>c<W. ok (grid s' ! i ! c))"
proof -
  let ?Q = "\<lambda>m t. R t \<and> length (grid t) = H \<and> (\<forall>r<H. length (grid t ! r) = W)
              \<and> (\<forall>r<H. r \<noteq> i \<longrightarrow> grid t ! r = grid s ! r)
              \<and> (\<forall>c<m. ok (grid t ! i ! c))"
  have "\<exists>s'. for_loop (py_range (int W)) body s = Inr s' \<and> ?Q (nat (int W)) s'"
  proof (rule for_loop_range_rule)
    show "?Q 0 s" using R len rows by simp
  next
    fix k t
    assume k: "k < nat (int W)" and Q: "?Q k t"
    then obtain v t' where t': "body (int k) t = Inr t'"
        "grid t' = (grid t)[i := (grid t ! i)[k := v]]" "ok v" "R t'"
      using body [of k t] by auto
    have "?Q (Suc k) t'"
      using Q t' i k by (auto simp: length_update2 nth_update2 less_Suc_eq)
    with t'(1) show "\<exists>t'. body (int k) t = Inr t' \<and> ?Q (Suc k) t'" by blast
  qed
  then show ?thesis by auto
qed

lemma loop_grid_cells:
  fixes grid :: "'s \<Rightarrow> int list list"
  assumes R: "R s" and len: "length (grid s) = H" and rows: "\<forall>r<H. length (grid s ! r) = W"
    and body: "\<And>i j t. i < H \<Longrightarrow> j < W \<Longrightarrow> R t \<Longrightarrow> length (grid t) = H
                 \<Longrightarrow> \<forall>r<H. length (grid t ! r) = W
                 \<Longrightarrow> \<exists>v t'. body (int i) (int j) t = Inr t'
                        \<and> grid t' = (grid t)[i := (grid t ! i)[j := v]] \<and> ok v \<and> R t'"
  shows "\<exists>s'. for_loop (py_range (int H)) (\<lambda>i. for_loop (py_range (int W)) (body i)) s = Inr s'
           \<and> R s' \<and> length (grid s') = H \<and> (\<forall>r<H. length (grid s' ! r) = W)
           \<and> (\<forall>r<H. \<forall>c<W. ok (grid s' ! r ! c))"
proof -
  let ?row = "\<lambda>i. for_loop (py_range (int W)) (body i)"
  let ?P = "\<lambda>n t. R t \<and> length (grid t) = H \<and> (\<forall>r<H. length (grid t ! r) = W)
              \<and> (\<forall>r<n. \<forall>c<W. ok (grid t ! r ! c))"
  have "\<exists>s'. for_loop (py_range (int H)) ?row s = Inr s' \<and> ?P (nat (int H)) s'"
  proof (rule for_loop_range_rule)
    show "?P 0 s" using R len rows by simp
  next
    fix k t
    assume k: "k < nat (int H)" and P: "?P k t"
    then have kH: "k < H" by simp
    from P have Rt: "R t" and lt: "length (grid t) = H"
      and rt: "\<forall>r<H. length (grid t ! r) = W" by auto
    from loop_row_cells [where grid = grid and R = R and ok = ok and body = "body (int k)",
        OF kH Rt lt rt body [OF kH]]
    obtain t' where t': "?row (int k) t = Inr t'" "R t'" "length (grid t') = H"
        "\<forall>r<H. length (grid t' ! r) = W"
        "\<forall>r<H. r \<noteq> k \<longrightarrow> grid t' ! r = grid t ! r"
        "\<forall>c<W. ok (grid t' ! k ! c)"
      by blast
    have "?P (Suc k) t'"
      using P t' kH by (auto simp: less_Suc_eq)
    with t'(1) show "\<exists>t'. ?row (int k) t = Inr t' \<and> ?P (Suc k) t'" by blast
  qed
  then show ?thesis by auto
qed

lemma reset_game_cells:
  assumes ok: "canvas_ok c"
  shows "\<exists>c'. reset_game c = Inr c'
           \<and> canvas_width c' = canvas_width c \<and> canvas_height c' = canvas_height c
           \<and> width (board c') = width (board c) \<and> height (board c') = height (board c)
           \<and> wf_board (board c') \<and> all_dead (board c')"
proof -
  define H where "H = nat (height (board c))"
  define W where "W = nat (width (board c))"
  define R where "R = (\<lambda>t :: Canvas. canvas_width t = canvas_width c \<and> canvas_height t = canvas_height c
      \<and> width (board t) = width (board c) \<and> height (board t) = height (board c))"
  define body where "body = (\<lambda>i j (t :: Canvas).
      py_bind (set_item (board t) i j 0) (\<lambda>b'. Inr (t\<lparr>board := b'\<rparr>)))"
  have pr: "py_range (int H) = py_range (canvas_height c)"
      "py_range (int W) = py_range (canvas_width c)"
    using ok unfolding H_def W_def py_range_nat by (simp_all add: canvas_ok_def)
  have run: "reset_game c
             = for_loop (py_range (int H)) (\<lambda>i. for_loop (py_range (int W)) (body i)) c"
    by (simp only: reset_game_def body_def pr)
  have step: "\<exists>v t'. body (int i) (int j) t = Inr t'
                \<and> state (board t') = (state (board t))[i := (state (board t) ! i)[j := v]]
                \<and> v = 0 \<and> R t'"
    if "i < H" "j < W" "R t" "length (state (board t)) = H"
      "\<forall>r<H. length (state (board t) ! r) = W" for i j t
  proof -
    have wf: "wf_board (board t)"
      using that by (simp add: wf_board_def list_all_length R_def H_def W_def)
    have ib: "in_bounds (board t) (int i) (int j)"
      using that by (auto simp: in_bounds_def R_def H_def W_def)
    show ?thesis
      using set_item_in_bounds [OF wf ib, of 0] that(3) by (simp add: body_def R_def)
  qed
  have "\<exists>s'. for_loop (py_range (int H)) (\<lambda>i. for_loop (py_range (int W)) (body i)) c = Inr s'
          \<and> R s' \<and> length (state (board s')) = H
          \<and> (\<forall>r<H. length (state (board s') ! r) = W)
          \<and> (\<forall>r<H. \<forall>c<W. state (board s') ! r ! c = 0)"
  proof (rule loop_grid_cells [where grid = "\<lambda>t. state (board t)" and ok = "\<lambda>v. v = 0"])
    show "R c" by (simp add: R_def)
    show "length (state (board c)) = H" using ok by (simp add: canvas_ok_def wf_board_def H_def)
    show "\<forall>r<H. length (state (board c) ! r) = W"
      using ok by (simp add: canvas_ok_def wf_board_def list_all_length H_def W_def)
  qed (rule step)
  then obtain s' where s': "reset_game c = Inr s'" "R s'" "length (state (board s')) = H"
      "\<forall>r<H. length (state (board s') ! r) = W"
      "\<forall>r<H. \<forall>c<W. state (board s') ! r ! c = 0"
    using run by auto
  have "wf_board (board s')"
    using s' by (simp add: wf_board_def list_all_length R_def H_def W_def)
  moreover have "all_dead (board s')"
    using s' by (simp add: all_dead_def list_all_length)
  ultimately show ?thesis using s'(1,2) by (simp add: R_def)
qed

lemma randomize_board_cells:
  assumes wf: "wf_board b" and draws: "\<forall>k. draws k = 0 \<or> draws k = 1"
  shows "\<exists>g. randomize_board draws b = Inr (b\<lparr>state := g\<rparr>)
           \<and> wf_board (b\<lparr>state := g\<rparr>) \<and> cells01 (b\<lparr>state := g\<rparr>)"
proof -
  define H where "H = nat (height b)"
  define W where "W = nat (width b)"
  define body where "body = (\<lambda>i j (t :: int list list \<times> nat).
      case t of (g, k) \<Rightarrow> py_bind (set2 g i j (draws k)) (\<lambda>g'. Inr (g', Suc k)))"
  have step: "\<exists>v t'. body (int i) (int j) t = Inr t'
                \<and> fst t' = (fst t)[i := (fst t ! i)[j := v]] \<and> (v = 0 \<or> v = 1) \<and> True"
    if "i < H" "j < W" "True" "length (fst t) = H" "\<forall>r<H. length (fst t ! r) = W" for i j t
  proof -
    obtain g k where t: "t = (g, k)" by (cases t)
    have "body (int i) (int j) t = Inr (g[i := (g ! i)[j := draws k]], Suc k)"
      using that t by (simp add: body_def set2_nat)
    then show ?thesis
      using draws t by (intro exI [of _ "draws k"]) simp
  qed
  have "\<exists>s'. for_loop (py_range (int H)) (\<lambda>i. for_loop (py_range (int W)) (body i)) (state b, 0)
            = Inr s'
          \<and> True \<and> length (fst s') = H \<and> (\<forall>r<H. length (fst s' ! r) = W)
          \<and> (\<forall>r<H. \<forall>c<W. fst s' ! r ! c = 0 \<or> fst s' ! r ! c = 1)"
  proof (rule loop_grid_cells [where grid = fst and R = "\<lambda>t. True" and ok = "\<lambda>v. v = 0 \<or> v = 1"])
    show "length (fst (state b, 0::nat)) = H" using wf by (simp add: wf_board_def H_def)
    show "\<forall>r<H. length (fst (state b, 0::nat) ! r) = W"
      using wf by (simp add: wf_board_def list_all_length H_def W_def)
  qed (simp, rule step)
  then obtain g k where s': "for_loop (py_range (int H))
        (\<lambda>i. for_loop (py_range (int W)) (body i)) (state b, 0) = Inr (g, k)"
      "length g = H" "\<forall>r<H. length (g ! r) = W" "\<forall>r<H. \<forall>c<W. g ! r ! c = 0 \<or> g ! r ! c = 1"
    by (metis fst_conv surj_pair)
  have pr: "py_range (int H) = py_range (height b)" "py_range (int W) = py_range (width b)"
    unfolding H_def W_def py_range_nat by simp_all
  have "randomize_board draws b = Inr (b\<lparr>state := g\<rparr>)"
    using s'(1) unfolding pr by (simp add: randomize_board_def body_def)
  moreover have "wf_board (b\<lparr>state := g\<rparr>)"
    using s' by (simp add: wf_board_def list_all_length H_def W_def)
  moreover have "cells01 (b\<lparr>state := g\<rparr>)"
    using s' by (simp add: cells01_def list_all_length)
  ultimately show ?thesis by blast
qed

subsection \<open>The invariant\<close>

lemma board_inv_wf: "board_inv b \<Longrightarrow> wf_board b"
  by (auto simp: board_inv_def wf_board_def list_all_length)

lemma board_inv_state:
  assumes inv: "board_inv b" and wf: "wf_board (b\<lparr>state := g\<rparr>)" and cells: "cells01 (b\<lparr>state := g\<rparr>)"
  shows "board_inv (b\<lparr>state := g\<rparr>)"
proof -
  have h: "int (length g) = height b"
    using inv wf by (simp add: board_inv_def wf_board_def)
  have "int (length (g ! r)) = width b" if "r < length g" for r
  proof -
    have "r < length (state b)" using that inv h by (simp add: board_inv_def)
    then have "int (length (state b ! r)) = width b"
      using inv by (simp add: board_inv_def list_all_length)
    then have "0 \<le> width b" by linarith
    moreover have "length (g ! r) = nat (width b)"
      using wf that by (simp add: wf_board_def list_all_length)
    ultimately show ?thesis by simp
  qed
  then show ?thesis
    using h cells by (simp add: board_inv_def list_all_length cells01_def)
qed

lemma cells01_update:
  assumes "cells01 b" "v = 0 \<or> v = 1"
  shows "cells01 (b\<lparr>state := (state b)[i := (state b ! i)[j := v]]\<rparr>)"
  using assms by (auto simp: cells01_def list_all_length length_update2 nth_update2)

lemma cells01_step_grid: "cells01 (b\<lparr>state := step_grid (state b)\<rparr>)"
  by (simp add: cells01_def step_grid_def list_all_length life_rule_def)

lemma all_dead_cells01: "all_dead b \<Longrightarrow> cells01 b"
  by (simp add: all_dead_def cells01_def list_all_length)

subsection \<open>The count as the number of alive Moore neighbours\<close>

lemma length_filter_of_bool:
  "int (length (filter P xs)) = sum_list (map (\<lambda>x. of_bool (P x)) xs)"
  by (induction xs) simp_all

lemma moore_offsets_eq:
  "moore_offsets = [(-1, -1), (-1, 0), (-1, 1), (0, -1), (0, 1), (1, -1), (1, 0), (1, 1)]"
  by (simp add: moore_offsets_def)

lemma alive_moore_neighbors_sum:
  "int (alive_moore_neighbors b row col)
   = of_bool (alive_cell b (row - 1) (col - 1)) + of_bool (alive_cell b (row - 1) col)
     + of_bool (alive_cell b (row - 1) (col + 1)) + of_bool (alive_cell b row (col - 1))
     + of_bool (alive_cell b row (col + 1)) + of_bool (alive_cell b (row + 1) (col - 1))
     + of_bool (alive_cell b (row + 1) col) + of_bool (alive_cell b (row + 1) (col + 1))"
  unfolding alive_moore_neighbors_def length_filter_of_bool moore_offsets_eq
  by simp

lemma grid_cell_alive:
  assumes wf: "wf_board b" and cells: "cells01 b"
  shows "grid_cell (state b) r c = of_bool (alive_cell b r c)"
proof (cases "in_bounds b r c")
  case True
  then have "nat r < length (state b)" using wf by (simp add: wf_board_def in_bounds_def)
  moreover have "nat c < length (state b ! nat r)"
    using True wf wf_board_rows [of b "nat r"] by (simp add: in_bounds_def)
  ultimately have "state b ! nat r ! nat c = 0 \<or> state b ! nat r ! nat c = 1"
    using cells by (simp add: cells01_def list_all_length)
  then show ?thesis
    using True by (auto simp: grid_cell_board [OF wf] alive_cell_def in_bounds_def)
next
  case False
  then show ?thesis
    by (auto simp: grid_cell_board [OF wf] alive_cell_def in_bounds_def)
qed

lemma grid_count_alive:
  assumes wf: "wf_board b" and cells: "cells01 b"
  shows "grid_count (state b) row col = int (alive_moore_neighbors b row col)"
  unfolding grid_count_def grid_cell_alive [OF wf cells] alive_moore_neighbors_sum
  by simp

lemma alive_moore_neighbors_le: "alive_moore_neighbors b row col \<le> 8"
proof -
  have "alive_moore_neighbors b row col \<le> length moore_offsets"
    unfolding alive_moore_neighbors_def by (rule length_filter_le)
  then show ?thesis by (simp add: moore_offsets_eq)
qed

subsection \<open>The blinker\<close>

lemma blinker_horizontal_step:
  "life_rule (pattern_cell blinker_horizontal r c)
     (pattern_cell blinker_horizontal r (c - 1) + pattern_cell blinker_horizontal r (c + 1)
      + pattern_cell blinker_horizontal (r + 1) (c - 1)
      + pattern_cell blinker_horizontal (r + 1) c
      + pattern_cell blinker_horizontal (r + 1) (c + 1)
      + pattern_cell blinker_horizontal (r - 1) (c - 1)
      + pattern_cell blinker_horizontal (r - 1) c
      + pattern_cell blinker_horizontal (r - 1) (c + 1))
   = pattern_cell blinker_vertical r c"
  by (auto simp: pattern_cell_def blinker_horizontal_def blinker_vertical_def life_rule_def)

lemma blinker_vertical_step:
  "life_rule (pattern_cell blinker_vertical r c)
     (pattern_cell blinker_vertical r (c - 1) + pattern_cell blinker_vertical r (c + 1)
      + pattern_cell blinker_vertical (r + 1) (c - 1)
      + pattern_cell blinker_vertical (r + 1) c
      + pattern_cell blinker_vertical (r + 1) (c + 1)
      + pattern_cell blinker_vertical (r - 1) (c - 1)
      + pattern_cell blinker_vertical (r - 1) c
      + pattern_cell blinker_vertical (r - 1) (c + 1))
   = pattern_cell blinker_horizontal r c"
  by (auto simp: pattern_cell_def blinker_horizontal_def blinker_vertical_def life_rule_def)

lemma wf_pattern_board: "wf_board (pattern_board alive w h)"
  by (simp add: wf_board_def pattern_board_def pattern_grid_def py_range_def list_all_length)

lemma pattern_grid_nth:
  "i < nat h \<Longrightarrow> j < nat w \<Longrightarrow> pattern_grid alive h w ! i ! j = pattern_cell alive (int i) (int j)"
  by (simp add: pattern_grid_def py_range_def)

lemma grid_cell_pattern:
  assumes inside: "list_all (\<lambda>(r, c). 0 \<le> r \<and> r < h \<and> 0 \<le> c \<and> c < w) alive"
  shows "grid_cell (pattern_grid alive h w) r c = pattern_cell alive r c"
proof (cases "0 \<le> r \<and> r < h \<and> 0 \<le> c \<and> c < w")
  case True
  then have "grid_cell (state (pattern_board alive w h)) r c
             = state (pattern_board alive w h) ! nat r ! nat c"
    by (simp add: grid_cell_board [OF wf_pattern_board]) (simp add: pattern_board_def)
  then show ?thesis
    using True by (simp add: pattern_board_def pattern_grid_nth)
next
  case False
  then have "(r, c) \<notin> set alive"
    using inside by (auto simp: list_all_iff)
  moreover have "grid_cell (state (pattern_board alive w h)) r c = 0"
    using False by (simp add: grid_cell_board [OF wf_pattern_board]) (auto simp: pattern_board_def)
  ultimately show ?thesis by (simp add: pattern_board_def pattern_cell_def)
qed

lemma step_grid_pattern:
  assumes inside: "list_all (\<lambda>(r, c). 0 \<le> r \<and> r < h \<and> 0 \<le> c \<and> c < w) alive"
    and rule: "\<And>r c. life_rule (pattern_cell alive r c)
       (pattern_cell alive r (c - 1) + pattern_cell alive r (c + 1)
        + pattern_cell alive (r + 1) (c - 1) + pattern_cell alive (r + 1) c
        + pattern_cell alive (r + 1) (c + 1)
        + pattern_cell alive (r - 1) (c - 1) + pattern_cell alive (r - 1) c
        + pattern_cell alive (r - 1) (c + 1)) = pattern_cell alive' r c"
  shows "step_grid (pattern_grid alive h w) = pattern_grid alive' h w"
proof -
  have "step_grid (state (pattern_board alive w h))
        = map (\<lambda>i. map (\<lambda>j. pattern_cell alive' (int i) (int j)) [0..<nat w]) [0..<nat h]"
    unfolding step_grid_board [OF wf_pattern_board]
    by (simp add: pattern_board_def pattern_grid_nth grid_count_def
        grid_cell_pattern [OF inside] rule)
  then show ?thesis
    by (simp add: pattern_board_def pattern_grid_def py_range_def comp_def)
qed

subsection \<open>The step and the random generator\<close>








subsection \<open>The constructors establish the shape\<close>

lemma Board_init_wf: "\<exists>b. Board_init w h = Inr b \<and> wf_board b"
  by (simp add: Board_init_def py_range_def wf_board_def list_all_length)

lemma Canvas_init_ok: "\<exists>c. Canvas_init w h = Inr c \<and> canvas_ok c"
  by (simp add: Canvas_init_def Board_init_def py_range_def canvas_ok_def wf_board_def
      list_all_length)

section \<open>The claims\<close>

lemma wf_example_board: "wf_board example_board"
  by (simp add: wf_board_def example_board_def)

lemma wf_empty_board: "wf_board empty_board"
  by (simp add: wf_board_def empty_board_def)

lemma canvas_ok_example: "canvas_ok example_canvas"
  by (simp add: canvas_ok_def example_canvas_def wf_example_board) (simp add: example_board_def)

lemma board_inv_example: "board_inv example_board"
  by (simp add: board_inv_def cells01_def example_board_def)

text \<open>
  C1. On a board of the shape the constructor builds and at an in-bounds cell,
  \<^verbatim>\<open>next_state\<close> returns, and the cell of the new board is 1 exactly when the cell of
  the prior board was 1 with a neighbour count of 2 or 3, or was 0 with a neighbour count
  of 3; otherwise it is 0. The neighbour count is \<^verbatim>\<open>count_alive_neighbors\<close> of the
  prior board \<open>b\<close>, the board no write of the step touches.
\<close>

theorem C1_next_state_rule:
  assumes "wf_board b" "in_bounds b row col"
  shows "\<exists>b'. next_state b = Inr b'
           \<and> (get_item b' row col = Inr 1 \<longleftrightarrow>
                (get_item b row col = Inr 1
                   \<and> (count_alive_neighbors b row col = Inr 2
                        \<or> count_alive_neighbors b row col = Inr 3))
                \<or> (get_item b row col = Inr 0 \<and> count_alive_neighbors b row col = Inr 3))
           \<and> (get_item b' row col \<noteq> Inr 1 \<longrightarrow> get_item b' row col = Inr 0)"
proof -
  let ?b' = "b\<lparr>state := step_grid (state b)\<rparr>"
  have wf': "wf_board ?b'" using assms(1) by (rule wf_board_next)
  have ib': "in_bounds ?b' row col" using assms(2) by (simp add: in_bounds_def)
  have ab: "assert_bounds b row col" using assms(2) by (simp add: in_bounds_def assert_bounds_def)
  have new: "get_item ?b' row col
             = Inr (life_rule (state b ! nat row ! nat col) (grid_count (state b) row col))"
    using get_item_in_bounds [OF wf' ib'] step_grid_nth [OF assms] by simp
  show ?thesis
    by (simp add: next_state_eq [OF assms(1)] new get_item_in_bounds [OF assms]
        count_alive_neighbors_eq [OF assms(1) ab] life_rule_def)
qed

theorem C1_next_state_rule_witness:
  "wf_board example_board \<and> in_bounds example_board 1 1
   \<and> (\<exists>b'. next_state example_board = Inr b' \<and> get_item b' 1 1 = Inr 1)"
proof -
  have wf: "wf_board example_board" by (rule wf_example_board)
  have ib: "in_bounds example_board 1 1" by (simp add: in_bounds_def example_board_def)
  have ab: "assert_bounds example_board 1 1" by (simp add: assert_bounds_def example_board_def)
  have cell: "get_item example_board 1 1 = Inr 1"
    by (simp add: get_item_in_bounds [OF wf ib]) (simp add: example_board_def)
  have "grid_count (state example_board) 1 1 = 2"
    by (simp add: grid_count_def grid_cell_def example_board_def)
  then have cnt: "count_alive_neighbors example_board 1 1 = Inr 2"
    by (simp add: count_alive_neighbors_eq [OF wf ab])
  show ?thesis
    using C1_next_state_rule [OF wf ib] wf ib cell cnt by auto
qed

text \<open>
  C2. The assertion of \<^verbatim>\<open>get_item\<close> and \<^verbatim>\<open>set_item\<close> compares with \<open>\<le>\<close>, so
  the row \<open>height\<close> and the column \<open>width\<close> pass it: on the 3 by 3 board the calls at
  (3, 0) and (0, 3) are outside \<open>[0, height) \<times> [0, width)\<close>, pass the assertion, and
  are stopped by the list access with an \<^verbatim>\<open>IndexError\<close>, not by the bounds check.
\<close>

theorem C2_bounds_assertion_off_by_one:
  "\<not> in_bounds example_board 3 0 \<and> assert_bounds example_board 3 0
   \<and> get_item example_board 3 0 = Inl IndexError
   \<and> set_item example_board 3 0 1 = Inl IndexError
   \<and> \<not> in_bounds example_board 0 3 \<and> assert_bounds example_board 0 3
   \<and> get_item example_board 0 3 = Inl IndexError
   \<and> set_item example_board 0 3 1 = Inl IndexError"
  by (simp add: in_bounds_def assert_bounds_def get_item_def set_item_def get2_def set2_def
      py_index_def py_store_def py_pos_def example_board_def)

text \<open>
  C3. \<^verbatim>\<open>set_item\<close> stores the value it is given: on the 2 by 2 board of dead cells,
  which has the invariant, \<^verbatim>\<open>set_item(0, 0, 7)\<close> returns a board holding a cell 7,
  which has not.
\<close>

theorem C3_counterexample:
  "board_inv empty_board
   \<and> set_item empty_board 0 0 7 = Inr \<lparr>width = 2, height = 2, state = [[7, 0], [0, 0]]\<rparr>
   \<and> \<not> board_inv \<lparr>width = 2, height = 2, state = [[7, 0], [0, 0]]\<rparr>"
  by (simp add: board_inv_def cells01_def empty_board_def set_item_def assert_bounds_def
      set2_def py_index_def py_store_def py_pos_def)

text \<open>
  C3, as amended. The constructor with a width and a height that are not negative
  gives a board with the invariant; \<^verbatim>\<open>set_item\<close> with a value 0 or 1,
  \<^verbatim>\<open>randomize_board\<close> (whose draws are 0 or 1), \<^verbatim>\<open>reset_game\<close> and
  \<^verbatim>\<open>next_state\<close> keep the invariant and leave width and height as they were.
\<close>

theorem C3_invariant_preserved:
  "(0 \<le> w \<and> 0 \<le> h \<longrightarrow>
      (\<exists>b0. Board_init w h = Inr b0 \<and> board_inv b0 \<and> width b0 = w \<and> height b0 = h))
   \<and> (board_inv b \<and> (v = 0 \<or> v = 1) \<and> set_item b r c v = Inr bs \<longrightarrow>
        board_inv bs \<and> width bs = width b \<and> height bs = height b)
   \<and> (board_inv b \<and> (\<forall>k. draws k = 0 \<or> draws k = 1) \<longrightarrow>
        (\<exists>b2. randomize_board draws b = Inr b2 \<and> board_inv b2
           \<and> width b2 = width b \<and> height b2 = height b))
   \<and> (board_inv (board cv) \<and> canvas_ok cv \<longrightarrow>
        (\<exists>cv'. reset_game cv = Inr cv' \<and> board_inv (board cv')
           \<and> width (board cv') = width (board cv) \<and> height (board cv') = height (board cv)))
   \<and> (board_inv b \<longrightarrow>
        (\<exists>b3. next_state b = Inr b3 \<and> board_inv b3
           \<and> width b3 = width b \<and> height b3 = height b))"
proof (intro conjI impI)
  assume "0 \<le> w \<and> 0 \<le> h"
  then show "\<exists>b0. Board_init w h = Inr b0 \<and> board_inv b0 \<and> width b0 = w \<and> height b0 = h"
    by (simp add: Board_init_def py_range_def board_inv_def cells01_def list_all_length)
next
  assume a: "board_inv b \<and> (v = 0 \<or> v = 1) \<and> set_item b r c v = Inr bs"
  then have wf: "wf_board b" by (simp add: board_inv_wf)
  have ib: "in_bounds b r c"
    using a set_item_out_of_bounds [OF wf, of r c v] by auto
  have bs: "bs = b\<lparr>state := (state b)[nat r := (state b ! nat r)[nat c := v]]\<rparr>"
    using a set_item_in_bounds [OF wf ib, of v] by simp
  have "board_inv bs"
    unfolding bs using a wf
    by (intro board_inv_state wf_board_update cells01_update) (simp_all add: board_inv_def)
  then show "board_inv bs" "width bs = width b" "height bs = height b"
    by (simp_all add: bs)
next
  assume a: "board_inv b \<and> (\<forall>k. draws k = 0 \<or> draws k = 1)"
  then have wf: "wf_board b" by (simp add: board_inv_wf)
  from randomize_board_cells [OF wf] a obtain g where
    g: "randomize_board draws b = Inr (b\<lparr>state := g\<rparr>)" "wf_board (b\<lparr>state := g\<rparr>)"
      "cells01 (b\<lparr>state := g\<rparr>)"
    by blast
  have "board_inv (b\<lparr>state := g\<rparr>)" using a g by (intro board_inv_state) simp_all
  with g(1) show "\<exists>b2. randomize_board draws b = Inr b2 \<and> board_inv b2
      \<and> width b2 = width b \<and> height b2 = height b"
    by simp
next
  assume a: "board_inv (board cv) \<and> canvas_ok cv"
  from reset_game_cells [of cv] a obtain cv' where cv': "reset_game cv = Inr cv'"
      "width (board cv') = width (board cv)" "height (board cv') = height (board cv)"
      "wf_board (board cv')" "all_dead (board cv')"
    by blast
  have eq: "board cv' = (board cv)\<lparr>state := state (board cv')\<rparr>"
    using cv'(2,3) by simp
  have "board_inv ((board cv)\<lparr>state := state (board cv')\<rparr>)"
    using a cv'(4,5) eq by (intro board_inv_state) (simp_all add: all_dead_cells01)
  with eq have "board_inv (board cv')" by simp
  with cv' show "\<exists>cv'. reset_game cv = Inr cv' \<and> board_inv (board cv')
      \<and> width (board cv') = width (board cv) \<and> height (board cv') = height (board cv)"
    by blast
next
  assume a: "board_inv b"
  then have wf: "wf_board b" by (rule board_inv_wf)
  have "board_inv (b\<lparr>state := step_grid (state b)\<rparr>)"
    using a wf by (intro board_inv_state wf_board_next cells01_step_grid)
  then show "\<exists>b3. next_state b = Inr b3 \<and> board_inv b3
      \<and> width b3 = width b \<and> height b3 = height b"
    by (simp add: next_state_eq [OF wf])
qed

theorem C3_invariant_preserved_witness:
  "board_inv example_board
   \<and> set_item example_board 0 0 1
       = Inr \<lparr>width = 3, height = 3, state = [[1, 1, 0], [0, 1, 0], [0, 1, 0]]\<rparr>
   \<and> canvas_ok example_canvas
   \<and> (\<exists>b0. Board_init 2 2 = Inr b0 \<and> board_inv b0)
   \<and> board_inv \<lparr>width = 3, height = 3, state = [[1, 1, 0], [0, 1, 0], [0, 1, 0]]\<rparr>
   \<and> (\<exists>b2. randomize_board (\<lambda>k. 1) example_board = Inr b2 \<and> board_inv b2)
   \<and> (\<exists>cv'. reset_game example_canvas = Inr cv' \<and> board_inv (board cv'))
   \<and> (\<exists>b3. next_state example_board = Inr b3 \<and> board_inv b3)"
proof -
  let ?B = "\<lparr>width = 3, height = 3, state = [[1, 1, 0], [0, 1, 0], [0, 1, 0]]\<rparr>"
  have inv: "board_inv example_board" by (rule board_inv_example)
  have set: "set_item example_board 0 0 1 = Inr ?B"
    by (simp add: example_board_def set_item_def assert_bounds_def set2_def py_index_def
        py_store_def py_pos_def)
  have cv: "board_inv (board example_canvas)" using inv by (simp add: example_canvas_def)
  have draws: "\<forall>k::nat. (1::int) = 0 \<or> (1::int) = 1" by simp
  note inst = C3_invariant_preserved [where w = 2 and h = 2 and b = example_board and v = 1
      and r = 0 and c = 0 and bs = ?B and draws = "\<lambda>k. 1" and cv = example_canvas]
  show ?thesis
    using inst inv set cv draws canvas_ok_example by auto
qed

text \<open>
  C4. On a board of the constructor's shape whose cells are all 0 or 1 and at an
  in-bounds cell, \<^verbatim>\<open>count_alive_neighbors\<close> returns a number from 0 to 8, the number
  of alive cells among the Moore neighbours that lie inside the grid; positions outside
  are not counted and nothing wraps. At the corner (0, 0) it counts the cells (0, 1),
  (1, 0) and (1, 1), those of them that are inside the grid, and nothing else.
\<close>

theorem C4_neighbor_count:
  assumes "wf_board b" "cells01 b" "in_bounds b row col"
  shows "\<exists>n. count_alive_neighbors b row col = Inr n \<and> 0 \<le> n \<and> n \<le> 8
           \<and> n = int (alive_moore_neighbors b row col)
           \<and> (row = 0 \<and> col = 0 \<longrightarrow>
                n = of_bool (alive_cell b 0 1) + of_bool (alive_cell b 1 0)
                    + of_bool (alive_cell b 1 1)
                \<and> n \<le> 3)"
proof -
  have ab: "assert_bounds b row col"
    using assms(3) by (simp add: in_bounds_def assert_bounds_def)
  have cnt: "count_alive_neighbors b row col = Inr (int (alive_moore_neighbors b row col))"
    using count_alive_neighbors_eq [OF assms(1) ab] grid_count_alive [OF assms(1,2)] by simp
  have out: "\<not> alive_cell b (- 1) c" "\<not> alive_cell b r (- 1)" for r c
    by (simp_all add: alive_cell_def in_bounds_def)
  have corner: "int (alive_moore_neighbors b 0 0)
      = of_bool (alive_cell b 0 1) + of_bool (alive_cell b 1 0) + of_bool (alive_cell b 1 1)"
    by (simp add: alive_moore_neighbors_sum out)
  have le1: "of_bool P \<le> (1::int)" for P by simp
  have "int (alive_moore_neighbors b 0 0) \<le> 3"
    unfolding corner
    using le1 [of "alive_cell b 0 1"] le1 [of "alive_cell b 1 0"] le1 [of "alive_cell b 1 1"]
    by linarith
  then show ?thesis
    using cnt alive_moore_neighbors_le [of b row col] corner by auto
qed

theorem C4_neighbor_count_witness:
  "wf_board example_board \<and> cells01 example_board \<and> in_bounds example_board 0 0
   \<and> count_alive_neighbors example_board 0 0 = Inr 2"
proof -
  have wf: "wf_board example_board" by (rule wf_example_board)
  have cells: "cells01 example_board" by (simp add: cells01_def example_board_def)
  have ib: "in_bounds example_board 0 0" by (simp add: in_bounds_def example_board_def)
  have "of_bool (alive_cell example_board 0 1) + of_bool (alive_cell example_board 1 0)
        + of_bool (alive_cell example_board 1 1) = (2::int)"
    by (simp add: alive_cell_def in_bounds_def example_board_def)
  with C4_neighbor_count [OF wf cells ib] wf cells ib show ?thesis by auto
qed

text \<open>
  C5. \<^verbatim>\<open>Board.__init__\<close> rejects nothing: with width 0 and height -1 it returns a
  board without rows.
\<close>

theorem C5_counterexample:
  "Board_init 0 (- 1) = Inr \<lparr>width = 0, height = - 1, state = []\<rparr>"
  by (simp add: Board_init_def py_range_def)

text \<open>
  C5, as amended. \<^verbatim>\<open>Board.__init__\<close> returns a board for every width and height:
  the attributes are the arguments, every cell is 0, and there are \<open>nat h\<close> rows of
  \<open>nat w\<close> cells, which is \<open>h\<close> rows of \<open>w\<close> cells when both are positive and a
  board without cells when one of them is not.
\<close>

theorem C5_Board_init_total:
  "\<exists>b. Board_init w h = Inr b \<and> width b = w \<and> height b = h \<and> all_dead b
       \<and> length (state b) = nat h \<and> list_all (\<lambda>row. length row = nat w) (state b)"
  by (simp add: Board_init_def py_range_def all_dead_def list_all_length)

theorem C5_Board_init_total_witness:
  "\<exists>b. Board_init 3 2 = Inr b \<and> width b = 3 \<and> height b = 2 \<and> all_dead b
       \<and> length (state b) = 2 \<and> list_all (\<lambda>row. length row = 3) (state b)"
  using C5_Board_init_total [of 3 2] by simp

text \<open>
  C6. The blinker. On the board of any width and height of at least 5 whose alive cells
  are exactly (2,1), (2,2), (2,3), one \<^verbatim>\<open>next_state\<close> gives the board whose alive
  cells are exactly (1,2), (2,2), (3,2), and a second one gives the first board back.
\<close>

theorem C6_blinker_period_2:
  assumes "5 \<le> w" "5 \<le> h"
  shows "next_state (pattern_board blinker_horizontal w h)
           = Inr (pattern_board blinker_vertical w h)
         \<and> next_state (pattern_board blinker_vertical w h)
           = Inr (pattern_board blinker_horizontal w h)"
proof -
  have hz: "list_all (\<lambda>(r, c). 0 \<le> r \<and> r < h \<and> 0 \<le> c \<and> c < w) blinker_horizontal"
    using assms by (simp add: blinker_horizontal_def)
  have vt: "list_all (\<lambda>(r, c). 0 \<le> r \<and> r < h \<and> 0 \<le> c \<and> c < w) blinker_vertical"
    using assms by (simp add: blinker_vertical_def)
  have "step_grid (pattern_grid blinker_horizontal h w) = pattern_grid blinker_vertical h w"
    using hz blinker_horizontal_step by (rule step_grid_pattern)
  moreover have "step_grid (pattern_grid blinker_vertical h w) = pattern_grid blinker_horizontal h w"
    using vt blinker_vertical_step by (rule step_grid_pattern)
  ultimately show ?thesis
    by (simp add: next_state_eq [OF wf_pattern_board]) (simp add: pattern_board_def)
qed

theorem C6_blinker_period_2_witness:
  "(5::int) \<le> 6 \<and> (5::int) \<le> 5
   \<and> pattern_board blinker_horizontal 6 5
       = \<lparr>width = 6, height = 5,
          state = [[0, 0, 0, 0, 0, 0], [0, 0, 0, 0, 0, 0], [0, 1, 1, 1, 0, 0],
                   [0, 0, 0, 0, 0, 0], [0, 0, 0, 0, 0, 0]]\<rparr>
   \<and> next_state (pattern_board blinker_horizontal 6 5)
       = Inr \<lparr>width = 6, height = 5,
              state = [[0, 0, 0, 0, 0, 0], [0, 0, 1, 0, 0, 0], [0, 0, 1, 0, 0, 0],
                       [0, 0, 1, 0, 0, 0], [0, 0, 0, 0, 0, 0]]\<rparr>
   \<and> next_state (pattern_board blinker_vertical 6 5)
       = Inr (pattern_board blinker_horizontal 6 5)"
proof -
  have r5: "py_range 5 = [0, 1, 2, 3, 4]" and r6: "py_range 6 = [0, 1, 2, 3, 4, 5]"
    by (simp_all add: py_range_def upt_rec)
  have hz: "pattern_board blinker_horizontal 6 5
      = \<lparr>width = 6, height = 5,
         state = [[0, 0, 0, 0, 0, 0], [0, 0, 0, 0, 0, 0], [0, 1, 1, 1, 0, 0],
                  [0, 0, 0, 0, 0, 0], [0, 0, 0, 0, 0, 0]]\<rparr>"
    by (simp add: pattern_board_def pattern_grid_def pattern_cell_def blinker_horizontal_def
        r5 r6)
  have vt: "pattern_board blinker_vertical 6 5
      = \<lparr>width = 6, height = 5,
         state = [[0, 0, 0, 0, 0, 0], [0, 0, 1, 0, 0, 0], [0, 0, 1, 0, 0, 0],
                  [0, 0, 1, 0, 0, 0], [0, 0, 0, 0, 0, 0]]\<rparr>"
    by (simp add: pattern_board_def pattern_grid_def pattern_cell_def blinker_vertical_def
        r5 r6)
  have w: "(5::int) \<le> 6" and h: "(5::int) \<le> 5" by simp_all
  show ?thesis
    using C6_blinker_period_2 [OF w h] hz vt by simp
qed



text \<open>
  C8. On a board of the constructor's shape and at an in-bounds position,
  \<^verbatim>\<open>set_item(r, c, 1)\<close> returns a board where \<^verbatim>\<open>get_item(r, c)\<close> is 1 and where
  \<^verbatim>\<open>get_item\<close> at every other position answers as it did before.
\<close>

theorem C8_set_item_frame:
  assumes "wf_board b" "in_bounds b r c"
  shows "\<exists>b'. set_item b r c 1 = Inr b' \<and> get_item b' r c = Inr 1
           \<and> (\<forall>r' c'. (r', c') \<noteq> (r, c) \<longrightarrow> get_item b' r' c' = get_item b r' c')"
proof -
  let ?b' = "b\<lparr>state := (state b)[nat r := (state b ! nat r)[nat c := 1]]\<rparr>"
  have set: "set_item b r c 1 = Inr ?b'" using assms by (rule set_item_in_bounds)
  have wf': "wf_board ?b'" using assms(1) by (rule wf_board_update)
  have ib': "in_bounds ?b' r c" using assms(2) by (simp add: in_bounds_def)
  have "nat r < length (state b)" using assms by (simp add: wf_board_def in_bounds_def)
  moreover have "nat c < length (state b ! nat r)"
    using assms wf_board_rows [of b "nat r"] by (simp add: in_bounds_def)
  ultimately have "get_item ?b' r c = Inr 1"
    using get_item_in_bounds [OF wf' ib'] by simp
  moreover have "\<forall>r' c'. (r', c') \<noteq> (r, c) \<longrightarrow> get_item ?b' r' c' = get_item b r' c'"
    using get_item_update_other [of _ _ r c b 1] assms(2) by (simp add: in_bounds_def)
  ultimately show ?thesis using set by simp
qed

theorem C8_set_item_frame_witness:
  "wf_board empty_board \<and> in_bounds empty_board 0 1
   \<and> (\<exists>b'. set_item empty_board 0 1 1 = Inr b' \<and> get_item b' 0 1 = Inr 1
         \<and> get_item b' 1 1 = Inr 0)"
proof -
  have wf: "wf_board empty_board" by (rule wf_empty_board)
  have ib: "in_bounds empty_board 0 1" by (simp add: in_bounds_def empty_board_def)
  have ib': "in_bounds empty_board 1 1" by (simp add: in_bounds_def empty_board_def)
  have old: "get_item empty_board 1 1 = Inr 0"
    by (simp add: get_item_in_bounds [OF wf ib']) (simp add: empty_board_def)
  from C8_set_item_frame [OF wf ib] obtain b' where
    b': "set_item empty_board 0 1 1 = Inr b'" "get_item b' 0 1 = Inr 1"
      "\<forall>r' c'. (r', c') \<noteq> (0, 1) \<longrightarrow> get_item b' r' c' = get_item empty_board r' c'"
    by blast
  from b'(3) have "get_item b' 1 1 = get_item empty_board 1 1" by simp
  with b' old wf ib show ?thesis by simp
qed

text \<open>
  C9. \<^verbatim>\<open>reset_game\<close>, the clear operation, on a canvas holding the dimensions of its
  board: it returns, the dimensions are unchanged, and \<^verbatim>\<open>get_item\<close> reads 0 at every
  in-bounds position of the board.
\<close>

theorem C9_reset_game_all_dead:
  assumes "canvas_ok c"
  shows "\<exists>c'. reset_game c = Inr c'
           \<and> width (board c') = width (board c) \<and> height (board c') = height (board c)
           \<and> (\<forall>row col. in_bounds (board c') row col \<longrightarrow> get_item (board c') row col = Inr 0)"
proof -
  from reset_game_cells [OF assms] obtain c' where c': "reset_game c = Inr c'"
      "width (board c') = width (board c)" "height (board c') = height (board c)"
      "wf_board (board c')" "all_dead (board c')"
    by blast
  have "get_item (board c') row col = Inr 0" if ib: "in_bounds (board c') row col" for row col
  proof -
    have "nat row < length (state (board c'))"
      using ib c'(4) by (simp add: in_bounds_def wf_board_def)
    moreover have "nat col < length (state (board c') ! nat row)"
      using ib c'(4) wf_board_rows [of "board c'" "nat row"] by (simp add: in_bounds_def)
    ultimately have "state (board c') ! nat row ! nat col = 0"
      using c'(5) by (simp add: all_dead_def list_all_length)
    then show ?thesis using get_item_in_bounds [OF c'(4) ib] by simp
  qed
  with c' show ?thesis by blast
qed

theorem C9_reset_game_all_dead_witness:
  "canvas_ok example_canvas
   \<and> (\<exists>c'. reset_game example_canvas = Inr c' \<and> get_item (board c') 1 1 = Inr 0)"
proof -
  from C9_reset_game_all_dead [OF canvas_ok_example] obtain c' where
    c': "reset_game example_canvas = Inr c'"
      "width (board c') = width (board example_canvas)"
      "height (board c') = height (board example_canvas)"
      "\<forall>row col. in_bounds (board c') row col \<longrightarrow> get_item (board c') row col = Inr 0"
    by blast
  have "in_bounds (board c') 1 1"
    using c'(2,3) by (simp add: in_bounds_def example_canvas_def example_board_def)
  with c'(1,4) canvas_ok_example show ?thesis by blast
qed

text \<open>
  C10. A board of the constructor's shape whose cells are all 0 is a fixed point of
  \<^verbatim>\<open>next_state\<close>: the step returns the same board, every cell still 0.
\<close>

theorem C10_all_dead_fixed_point:
  assumes "wf_board b" "all_dead b"
  shows "\<exists>b'. next_state b = Inr b' \<and> all_dead b' \<and> b' = b"
  using assms by (simp add: next_state_eq all_dead_def step_grid_all_dead)

theorem C10_all_dead_fixed_point_witness:
  "wf_board empty_board \<and> all_dead empty_board \<and> next_state empty_board = Inr empty_board"
proof -
  have wf: "wf_board empty_board" by (rule wf_empty_board)
  have ad: "all_dead empty_board" by (simp add: all_dead_def empty_board_def)
  show ?thesis
    using C10_all_dead_fixed_point [OF wf ad] wf ad by simp
qed

end
